theory Spec2Isabelle
  imports Main "HOL-Library.Word"
begin

section \<open>The UART DMA ring buffer example: data model\<close>

text \<open>
  The program is \<^verbatim>\<open>src/main.c\<close>. A DMA channel copies every byte received on the
  UART into \<^verbatim>\<open>ring_buffer\<close>; the SysTick interrupt handler runs
  periodically, asks the DMA how far it has written, and echoes the bytes it has not seen
  yet to the UART. The handler keeps one \<^verbatim>\<open>static uint32_t start\<close> between
  invocations.

  Machine integers keep their C widths: \<^verbatim>\<open>uint8_t\<close> is \<open>8 word\<close>,
  \<^verbatim>\<open>uint32_t\<close> is \<open>32 word\<close>, with wrapping subtraction and unsigned
  comparison. A pointer into an array is the array together with an offset into it.

  One invocation of the handler is modelled as a sequential step: the DMA does not write
  while it runs. What the DMA does between two invocations is a change of the state the
  next invocation starts from.
\<close>

type_synonym u8 = "8 word"
type_synonym u32 = "32 word"

text \<open>\<^verbatim>\<open>#define RING_BUFFER_SIZE 4096\<close>\<close>

definition RING_BUFFER_SIZE :: u32 where
  "RING_BUFFER_SIZE = 4096"

text \<open>
  The state the handler can see or change.
  \<^item> \<open>start\<close>: the handler's \<^verbatim>\<open>static uint32_t start\<close>.
  \<^item> \<open>ring_buffer\<close>: the array \<^verbatim>\<open>static volatile uint8_t ring_buffer[RING_BUFFER_SIZE]\<close>.
  \<^item> \<open>dma_transferred\<close>: the DMA channel's counter, the value
    \<^verbatim>\<open>XMC_DMA_CH_GetTransferredData(XMC_DMA0, GPDMA_CHANNEL_2)\<close> reads.
  \<^item> \<open>tx\<close>: every byte handed to \<^verbatim>\<open>XMC_UART_CH_Transmit\<close>, oldest first.
  The last two fields are a log of what the code did, kept so that statements about spans
  and about the offsets read can be made; the code does not branch on them.
  \<^item> \<open>loads\<close>: the offset of every \<^verbatim>\<open>*data\<close> dereference, oldest first.
  \<^item> \<open>spans\<close>: the \<open>(offset, len)\<close> arguments of every call of
    \<^verbatim>\<open>uart_transmit\<close>, oldest first.
\<close>

record machine =
  start :: u32
  ring_buffer :: "u8 list"
  dma_transferred :: u32
  tx :: "u8 list"
  loads :: "nat list"
  spans :: "(nat \<times> nat) list"

text \<open>
  C gives no meaning to a read past the end of an array. The model makes such a read a
  result of its own, so that its absence is something to prove.
\<close>

datatype fault = OutOfBounds nat

section \<open>The external collaborators\<close>

text \<open>
  Modelled from the spec: \<^verbatim>\<open>XMC_UART_CH_Transmit(channel, byte)\<close> is a function of the XMC
  peripheral library, whose source is not part of the repository. The spec's Sink
  ``accepts an ordered sequence of bytes'' and ``consumes them synchronously or buffers
  them without loss'': the byte is appended to the transmitted stream.
\<close>

definition XMC_UART_CH_Transmit :: "u8 \<Rightarrow> machine \<Rightarrow> machine" where
  "XMC_UART_CH_Transmit b m = m\<lparr>tx := tx m @ [b]\<rparr>"

text \<open>
  Modelled from the spec: \<^verbatim>\<open>XMC_DMA_CH_GetTransferredData(dma, channel)\<close> is a function of
  the XMC peripheral library, whose source is not part of the repository. It ``exposes
  the current write offset, readable at any time without blocking the reader'': it reads
  the counter and changes nothing.
\<close>

definition XMC_DMA_CH_GetTransferredData :: "machine \<Rightarrow> u32" where
  "XMC_DMA_CH_GetTransferredData m = dma_transferred m"

section \<open>\<^verbatim>\<open>uart_transmit\<close>\<close>

text \<open>
  \<^verbatim>\<open>
  static void uart_transmit(XMC_USIC_CH_t *const channel, const uint8_t *data, uint32_t len)
  {
      for (uint32_t i = 0; i < len; ++i, ++data)
      {
          XMC_UART_CH_Transmit(channel, *data);
      }
  }
  \<close>
  The loop, with \<open>mem\<close> the array \<^verbatim>\<open>data\<close> points into and \<open>data\<close> the offset
  in it. Each round tests \<^verbatim>\<open>i < len\<close>, reads \<^verbatim>\<open>*data\<close>, transmits it and
  increments both.
\<close>

function uart_transmit_loop :: "u8 list \<Rightarrow> nat \<Rightarrow> u32 \<Rightarrow> u32 \<Rightarrow> machine \<Rightarrow> fault + machine" where
  "uart_transmit_loop mem data i len m =
     (if i < len then
        (if data < length mem
         then uart_transmit_loop mem (data + 1) (i + 1) len
                (XMC_UART_CH_Transmit (mem ! data) (m\<lparr>loads := loads m @ [data]\<rparr>))
         else Inl (OutOfBounds data))
      else Inr m)"
  by pat_completeness auto
termination
proof (relation "measure (\<lambda>(mem, data, i, len, m). unat len - unat i)")
  show "wf (measure (\<lambda>(mem, data, i, len, m). unat len - unat i))"
    by simp
next
  fix mem :: "u8 list" and data :: nat and i len :: u32 and m :: machine
  assume lt: "i < len"
  then have lt': "unat i < unat len"
    by (simp add: word_less_nat_alt)
  have "unat len < 2 ^ LENGTH(32)"
    by (rule unsigned_less)
  with lt' have "unat i + unat (1 :: u32) < 2 ^ LENGTH(32)"
    by simp
  then have "unat (i + 1) = unat i + unat (1 :: u32)"
    by (simp only: unat_add_lem)
  with lt' show "((mem, data + 1, i + 1, len,
                     XMC_UART_CH_Transmit (mem ! data) (m\<lparr>loads := loads m @ [data]\<rparr>)),
                    (mem, data, i, len, m))
                   \<in> measure (\<lambda>(mem, data, i, len, m). unat len - unat i)"
    by simp
qed

declare uart_transmit_loop.simps [simp del]

definition uart_transmit :: "u8 list \<Rightarrow> nat \<Rightarrow> u32 \<Rightarrow> machine \<Rightarrow> fault + machine" where
  "uart_transmit mem data len m =
     uart_transmit_loop mem data 0 len (m\<lparr>spans := spans m @ [(data, unat len)]\<rparr>)"

section \<open>\<^verbatim>\<open>SysTick_Handler\<close>\<close>

text \<open>
  \<^verbatim>\<open>
  void SysTick_Handler(void)
  {
      static uint32_t start = 0;
      uint32_t end = XMC_DMA_CH_GetTransferredData(XMC_DMA0, GPDMA_CHANNEL_2);
      if (start != end)
      {
          if (start < end)
          {
              uart_transmit(CYBSP_DEBUG_UART_HW, (const uint8_t *)& ring_buffer[start], end - start);
          }
          else
          {
              uart_transmit(CYBSP_DEBUG_UART_HW, (const uint8_t *)&ring_buffer[start], RING_BUFFER_SIZE - start);
              uart_transmit(CYBSP_DEBUG_UART_HW, (const uint8_t *)&ring_buffer[0], end);
          }
          start = end;
      }
  }
  \<close>
  The macro \<^verbatim>\<open>RING_BUFFER_SIZE\<close> is the parameter \<open>N\<close> of the model, so that the
  handler can be studied at every capacity; the program is \<open>SysTick_Handler RING_BUFFER_SIZE\<close>.
  The second \<^verbatim>\<open>uart_transmit\<close> of the wrapped branch runs only when the first one
  has returned.
\<close>

definition SysTick_Handler :: "u32 \<Rightarrow> machine \<Rightarrow> fault + machine" where
  "SysTick_Handler N m =
     (let end = XMC_DMA_CH_GetTransferredData m in
      if start m \<noteq> end then
        (case (if start m < end
               then uart_transmit (ring_buffer m) (unat (start m)) (end - start m) m
               else (case uart_transmit (ring_buffer m) (unat (start m)) (N - start m) m of
                       Inl f \<Rightarrow> Inl f
                     | Inr m1 \<Rightarrow> uart_transmit (ring_buffer m1) 0 end m1))
         of Inl f \<Rightarrow> Inl f
          | Inr m2 \<Rightarrow> Inr (m2\<lparr>start := end\<rparr>))
      else Inr m)"

section \<open>The conditions and notions of the specification\<close>

text \<open>
  ``Both are offsets in \<open>[0, N)\<close>'': the retained \<open>start\<close> and the sampled write offset lie
  below the capacity, and the array has the capacity as its size.
\<close>

definition offsets_in_range :: "u32 \<Rightarrow> machine \<Rightarrow> bool" where
  "offsets_in_range N m \<longleftrightarrow>
     length (ring_buffer m) = unat N \<and> start m < N \<and> dma_transferred m < N"

text \<open>
  The specification's ``half-open region starting at \<open>start\<close> and ending at \<open>end\<close>,
  interpreted circularly with wrap'', written from its words and not from the code: the
  offsets \<open>s\<close>, \<open>s + 1\<close>, \<dots> taken modulo the capacity \<open>n\<close>, up to and excluding
  \<open>e\<close>; there are \<open>(e - s) mod n\<close> of them. \<open>circ_region\<close> is the bytes stored there.
\<close>

definition circ_offsets :: "nat \<Rightarrow> nat \<Rightarrow> nat \<Rightarrow> nat list" where
  "circ_offsets n s e = map (\<lambda>k. (s + k) mod n) [0..<(e + n - s) mod n]"

definition circ_region :: "u8 list \<Rightarrow> nat \<Rightarrow> nat \<Rightarrow> u8 list" where
  "circ_region buf s e = map (\<lambda>off. buf ! off) (circ_offsets (length buf) s e)"

text \<open>
  Modelled from the spec: the Producer Driver is the DMA hardware, configured outside
  \<^verbatim>\<open>src/main.c\<close>. It ``writes bytes into the Circular Store strictly in increasing
  offset order, wrapping at capacity, never skipping or reordering'', and its write
  position \<open>W\<close> ``maps to physical offset \<open>W mod N\<close>''. \<open>produce N bs\<close> is the producer
  writing the bytes \<open>bs\<close>, first to last, with no drain in between.
\<close>

fun produce :: "u32 \<Rightarrow> u8 list \<Rightarrow> machine \<Rightarrow> machine" where
  "produce N [] m = m"
| "produce N (b # bs) m =
     produce N bs
       (m\<lparr>ring_buffer := (ring_buffer m)[unat (dma_transferred m) := b],
          dma_transferred := (dma_transferred m + 1) mod N\<rparr>)"

text \<open>
  Modelled from the spec: the Drain Scheduler is the SysTick timer, configured by
  \<^verbatim>\<open>SysTick_Config\<close> outside the handler. ``On each tick it samples the producer's
  current write offset and passes it to the Consumer synchronously'', one invocation per
  period and never two at once. \<open>ticks N es\<close> runs the handler once for each sampled offset of
  \<open>es\<close>, in order, and stops at the first fault.
\<close>

fun ticks :: "u32 \<Rightarrow> u32 list \<Rightarrow> machine \<Rightarrow> fault + machine" where
  "ticks N [] m = Inr m"
| "ticks N (e # es) m =
     (case SysTick_Handler N (m\<lparr>dma_transferred := e\<rparr>) of
        Inl f \<Rightarrow> Inl f
      | Inr m' \<Rightarrow> ticks N es m')"

section \<open>The capacity of the program\<close>

text \<open>
  Every statement below is for an arbitrary capacity \<open>N\<close>. For the program, whose
  array has 4096 bytes, the condition on the offsets reads as follows.
\<close>

lemma RING_BUFFER_SIZE_unat: "unat RING_BUFFER_SIZE = 4096"
  by (simp add: RING_BUFFER_SIZE_def)

lemma offsets_in_range_program:
  "offsets_in_range RING_BUFFER_SIZE m \<longleftrightarrow>
     length (ring_buffer m) = 4096 \<and> unat (start m) < 4096 \<and> unat (dma_transferred m) < 4096"
  by (simp add: offsets_in_range_def word_less_nat_alt RING_BUFFER_SIZE_unat)

section \<open>What \<^verbatim>\<open>uart_transmit\<close> does\<close>

text \<open>
  While the loop counter is below \<open>len\<close> its increment does not wrap. A loop whose
  remaining reads all lie inside the array runs to its end, transmits the bytes it read
  and reads each offset once, in increasing order.
\<close>

lemma unat_succ: "i < len \<Longrightarrow> unat (i + 1) = Suc (unat i)" for i len :: u32
proof -
  assume "i < len"
  then have lt': "unat i < unat len"
    by (simp add: word_less_nat_alt)
  have "unat len < 2 ^ LENGTH(32)"
    by (rule unsigned_less)
  with lt' have "unat i + unat (1 :: u32) < 2 ^ LENGTH(32)"
    by simp
  then have "unat (i + 1) = unat i + unat (1 :: u32)"
    by (simp only: unat_add_lem)
  then show ?thesis by simp
qed

lemma uart_transmit_loop_eq:
  "unat i \<le> unat len \<Longrightarrow> data + (unat len - unat i) \<le> length mem \<Longrightarrow>
   uart_transmit_loop mem data i len m =
     Inr (m\<lparr>tx := tx m @ take (unat len - unat i) (drop data mem),
            loads := loads m @ [data..<data + (unat len - unat i)]\<rparr>)"
proof (induction mem data i len m rule: uart_transmit_loop.induct)
  case (1 mem data i len m)
  show ?case
  proof (cases "i < len")
    case False
    with "1.prems" have "unat len - unat i = 0"
      by (simp add: word_less_nat_alt)
    with False show ?thesis
      by (simp add: uart_transmit_loop.simps [of mem data i len m])
  next
    case True
    then have suc: "unat (i + 1) = Suc (unat i)"
      by (rule unat_succ)
    from True have lt: "unat i < unat len"
      by (simp add: word_less_nat_alt)
    with "1.prems" have inb: "data < length mem"
      by simp
    define k where "k = unat len - unat (i + 1)"
    have k: "unat len - unat i = Suc k"
      using lt suc by (simp add: k_def)
    have step: "uart_transmit_loop mem data i len m =
        uart_transmit_loop mem (data + 1) (i + 1) len
          (XMC_UART_CH_Transmit (mem ! data) (m\<lparr>loads := loads m @ [data]\<rparr>))"
      using True inb by (simp add: uart_transmit_loop.simps [of mem data i len m])
    have ih: "uart_transmit_loop mem (data + 1) (i + 1) len
          (XMC_UART_CH_Transmit (mem ! data) (m\<lparr>loads := loads m @ [data]\<rparr>)) =
        Inr ((XMC_UART_CH_Transmit (mem ! data) (m\<lparr>loads := loads m @ [data]\<rparr>))
              \<lparr>tx := tx (XMC_UART_CH_Transmit (mem ! data) (m\<lparr>loads := loads m @ [data]\<rparr>))
                     @ take k (drop (data + 1) mem),
               loads := loads (XMC_UART_CH_Transmit (mem ! data) (m\<lparr>loads := loads m @ [data]\<rparr>))
                     @ [data + 1..<data + 1 + k]\<rparr>)"
      unfolding k_def using True inb "1.prems" lt suc
      by (intro "1.IH") simp_all
    have bytes: "take (Suc k) (drop data mem) = mem ! data # take k (drop (Suc data) mem)"
      using inb by (simp add: Cons_nth_drop_Suc [symmetric])
    have offs: "[data..<data + Suc k] = data # [Suc data..<Suc (data + k)]"
      by (simp add: upt_conv_Cons)
    show ?thesis
      unfolding step ih k bytes offs
      by (simp add: XMC_UART_CH_Transmit_def del: upt_Suc)
  qed
qed

lemma uart_transmit_eq:
  assumes "data + unat len \<le> length mem"
  shows "uart_transmit mem data len m =
     Inr (m\<lparr>tx := tx m @ take (unat len) (drop data mem),
            loads := loads m @ [data..<data + unat len],
            spans := spans m @ [(data, unat len)]\<rparr>)"
  using assms by (simp add: uart_transmit_def uart_transmit_loop_eq)

text \<open>Whatever the arguments, a call that returns has changed neither the array, nor
  the DMA counter, nor \<open>start\<close>.\<close>

lemma uart_transmit_loop_frame:
  "uart_transmit_loop mem data i len m = Inr m' \<Longrightarrow>
   start m' = start m \<and> ring_buffer m' = ring_buffer m \<and>
   dma_transferred m' = dma_transferred m"
proof (induction mem data i len m rule: uart_transmit_loop.induct)
  case (1 mem data i len m)
  show ?case
  proof (cases "i < len \<and> data < length mem")
    case True
    with "1.prems" have "uart_transmit_loop mem (data + 1) (i + 1) len
        (XMC_UART_CH_Transmit (mem ! data) (m\<lparr>loads := loads m @ [data]\<rparr>)) = Inr m'"
      by (simp add: uart_transmit_loop.simps [of mem data i len m])
    with True have "start m' = start (XMC_UART_CH_Transmit (mem ! data) (m\<lparr>loads := loads m @ [data]\<rparr>)) \<and>
        ring_buffer m' = ring_buffer (XMC_UART_CH_Transmit (mem ! data) (m\<lparr>loads := loads m @ [data]\<rparr>)) \<and>
        dma_transferred m' = dma_transferred (XMC_UART_CH_Transmit (mem ! data) (m\<lparr>loads := loads m @ [data]\<rparr>))"
      by (intro "1.IH") simp_all
    then show ?thesis
      by (simp add: XMC_UART_CH_Transmit_def)
  next
    case False
    with "1.prems" show ?thesis
      by (auto simp: uart_transmit_loop.simps [of mem data i len m] split: if_splits)
  qed
qed

lemma uart_transmit_frame:
  "uart_transmit mem data len m = Inr m' \<Longrightarrow>
   start m' = start m \<and> ring_buffer m' = ring_buffer m \<and>
   dma_transferred m' = dma_transferred m"
  by (auto simp: uart_transmit_def dest: uart_transmit_loop_frame)

section \<open>What \<^verbatim>\<open>SysTick_Handler\<close> does, branch by branch\<close>

lemma SysTick_Handler_noop: "start m = dma_transferred m \<Longrightarrow> SysTick_Handler N m = Inr m"
  by (simp add: SysTick_Handler_def XMC_DMA_CH_GetTransferredData_def)

lemma SysTick_Handler_linear:
  assumes r: "offsets_in_range N m" and lt: "start m < dma_transferred m"
  shows "SysTick_Handler N m =
     Inr (m\<lparr>start := dma_transferred m,
            tx := tx m @ take (unat (dma_transferred m) - unat (start m))
                           (drop (unat (start m)) (ring_buffer m)),
            loads := loads m @ [unat (start m)..<unat (dma_transferred m)],
            spans := spans m @ [(unat (start m), unat (dma_transferred m) - unat (start m))]\<rparr>)"
proof -
  from lt have le: "start m \<le> dma_transferred m" by simp
  have len: "unat (dma_transferred m - start m) = unat (dma_transferred m) - unat (start m)"
    using le by (rule unat_sub)
  from lt have lt': "unat (start m) < unat (dma_transferred m)"
    by (simp add: word_less_nat_alt)
  from r have "unat (dma_transferred m) < length (ring_buffer m)"
    by (simp add: offsets_in_range_def word_less_nat_alt)
  with lt' have fits: "unat (start m) + unat (dma_transferred m - start m) \<le> length (ring_buffer m)"
    by (simp add: len)
  from lt have ne: "start m \<noteq> dma_transferred m" by auto
  show ?thesis
    using lt ne lt'
    by (simp add: SysTick_Handler_def Let_def XMC_DMA_CH_GetTransferredData_def uart_transmit_eq [OF fits] len)
qed

lemma SysTick_Handler_wrapped:
  assumes r: "offsets_in_range N m" and gt: "dma_transferred m < start m"
  shows "SysTick_Handler N m =
     Inr (m\<lparr>start := dma_transferred m,
            tx := tx m @ drop (unat (start m)) (ring_buffer m)
                       @ take (unat (dma_transferred m)) (ring_buffer m),
            loads := loads m @ [unat (start m)..<unat N] @ [0..<unat (dma_transferred m)],
            spans := spans m @ [(unat (start m), unat N - unat (start m)),
                                (0, unat (dma_transferred m))]\<rparr>)"
proof -
  from r have n: "length (ring_buffer m) = unat N" and sN: "start m < N"
    and eN: "dma_transferred m < N"
    by (simp_all add: offsets_in_range_def)
  from sN have "start m \<le> N" by simp
  then have len1: "unat (N - start m) = unat N - unat (start m)"
    by (rule unat_sub)
  from sN have s': "unat (start m) < unat N"
    by (simp add: word_less_nat_alt)
  from eN have e': "unat (dma_transferred m) < unat N"
    by (simp add: word_less_nat_alt)
  have fits1: "unat (start m) + unat (N - start m) \<le> length (ring_buffer m)"
    using s' by (simp add: len1 n)
  have fits2: "0 + unat (dma_transferred m) \<le> length (ring_buffer m)"
    using e' by (simp add: n)
  from gt have ne: "start m \<noteq> dma_transferred m" and nlt: "\<not> start m < dma_transferred m"
    by auto
  have first: "uart_transmit (ring_buffer m) (unat (start m)) (N - start m) m =
      Inr (m\<lparr>tx := tx m @ drop (unat (start m)) (ring_buffer m),
             loads := loads m @ [unat (start m)..<unat N],
             spans := spans m @ [(unat (start m), unat N - unat (start m))]\<rparr>)"
    using s' by (simp add: uart_transmit_eq [OF fits1] len1 n)
  show ?thesis
    using ne nlt fits2
    by (simp add: SysTick_Handler_def Let_def XMC_DMA_CH_GetTransferredData_def first uart_transmit_eq)
qed

lemma SysTick_Handler_frame:
  assumes "SysTick_Handler N m = Inr m'"
  shows "ring_buffer m' = ring_buffer m \<and> dma_transferred m' = dma_transferred m \<and>
         start m' = dma_transferred m"
proof (cases "start m = dma_transferred m")
  case True
  with assms show ?thesis
    by (simp add: SysTick_Handler_def XMC_DMA_CH_GetTransferredData_def)
next
  case ne: False
  show ?thesis
  proof (cases "start m < dma_transferred m")
    case True
    with ne assms obtain m2 where
      "uart_transmit (ring_buffer m) (unat (start m)) (dma_transferred m - start m) m = Inr m2"
      and "m' = m2\<lparr>start := dma_transferred m\<rparr>"
      by (auto simp: SysTick_Handler_def Let_def XMC_DMA_CH_GetTransferredData_def
               split: sum.splits)
    then show ?thesis
      by (auto dest: uart_transmit_frame)
  next
    case False
    with ne assms obtain m1 m2 where
      one: "uart_transmit (ring_buffer m) (unat (start m)) (N - start m) m = Inr m1"
      and two: "uart_transmit (ring_buffer m1) 0 (dma_transferred m) m1 = Inr m2"
      and "m' = m2\<lparr>start := dma_transferred m\<rparr>"
      by (auto simp: SysTick_Handler_def Let_def XMC_DMA_CH_GetTransferredData_def
               split: sum.splits)
    then show ?thesis
      using uart_transmit_frame [OF one] uart_transmit_frame [OF two] by simp
  qed
qed

section \<open>The circular region\<close>

text \<open>
  For offsets below the capacity, the circular region is the interval from \<open>s\<close> to \<open>e\<close>
  when \<open>s \<le> e\<close>, and otherwise the interval from \<open>s\<close> to the capacity followed by the
  interval from 0 to \<open>e\<close>. No offset occurs twice in it.
\<close>

lemma circ_offsets_linear:
  assumes "s \<le> e" and "e < n"
  shows "circ_offsets n s e = [s..<e]"
proof -
  from assms have "e + n - s = e - s + n"
    by arith
  moreover from assms have "e - s < n"
    by arith
  then have "(e - s + n) mod n = e - s"
    by (simp only: mod_add_self2 mod_less)
  ultimately have cnt: "(e + n - s) mod n = e - s"
    by (simp only:)
  have "map (\<lambda>k. (s + k) mod n) [0..<e - s] = map (\<lambda>k. k + s) [0..<e - s]"
    using assms by (intro map_cong) (auto simp: add.commute)
  also have "\<dots> = [s..<e]"
    using assms by (simp add: map_add_upt)
  finally show ?thesis
    by (simp add: circ_offsets_def cnt)
qed

lemma circ_offsets_wrapped:
  assumes "e < s" and "s < n"
  shows "circ_offsets n s e = [s..<n] @ [0..<e]"
proof (rule nth_equalityI)
  have cnt: "(e + n - s) mod n = e + n - s"
    using assms by simp
  show len: "length (circ_offsets n s e) = length ([s..<n] @ [0..<e])"
    using assms by (simp add: circ_offsets_def cnt)
  fix i
  assume "i < length (circ_offsets n s e)"
  then have i: "i < e + n - s"
    by (simp add: circ_offsets_def cnt)
  show "circ_offsets n s e ! i = ([s..<n] @ [0..<e]) ! i"
  proof (cases "i < n - s")
    case True
    then show ?thesis
      using i assms by (simp add: circ_offsets_def cnt nth_append)
  next
    case False
    then have "n \<le> s + i" by simp
    then have "(s + i) mod n = (s + i - n) mod n"
      by (rule le_mod_geq)
    also have "\<dots> = s + i - n"
      using i assms by simp
    finally show ?thesis
      using False i assms by (simp add: circ_offsets_def cnt nth_append)
  qed
qed

lemma map_nth_upt: "e \<le> length xs \<Longrightarrow> map (\<lambda>off. xs ! off) [s..<e] = take (e - s) (drop s xs)"
  by (rule nth_equalityI) (auto simp: min_def)

lemma circ_offsets_distinct:
  assumes "s < n" and "e < n"
  shows "distinct (circ_offsets n s e)"
proof (cases "s \<le> e")
  case True
  then show ?thesis using assms by (simp add: circ_offsets_linear)
next
  case False
  then show ?thesis using assms by (auto simp: circ_offsets_wrapped)
qed

lemma circ_offsets_bound:
  assumes "s < n" and "e < n"
  shows "off \<in> set (circ_offsets n s e) \<Longrightarrow> off < n"
    and "length (circ_offsets n s e) < n"
proof -
  have pos: "0 < n" using assms by simp
  show "off \<in> set (circ_offsets n s e) \<Longrightarrow> off < n"
    using pos by (auto simp: circ_offsets_def)
  show "length (circ_offsets n s e) < n"
    using pos by (simp add: circ_offsets_def)
qed

text \<open>With both offsets in range the handler returns, having transmitted the circular
  region from \<open>start\<close> to the sampled offset in at most two calls of
  \<^verbatim>\<open>uart_transmit\<close>.\<close>

lemma SysTick_Handler_region:
  assumes r: "offsets_in_range N m"
  shows "\<exists>sp. length sp \<le> 2 \<and>
     SysTick_Handler N m =
       Inr (m\<lparr>start := dma_transferred m,
              tx := tx m @ circ_region (ring_buffer m) (unat (start m)) (unat (dma_transferred m)),
              loads := loads m @ circ_offsets (unat N) (unat (start m)) (unat (dma_transferred m)),
              spans := spans m @ sp\<rparr>)"
proof -
  let ?s = "unat (start m)" and ?e = "unat (dma_transferred m)" and ?n = "unat N"
  from r have n: "length (ring_buffer m) = ?n" and s: "?s < ?n" and e: "?e < ?n"
    by (simp_all add: offsets_in_range_def word_less_nat_alt)
  consider (same) "start m = dma_transferred m" | (linear) "start m < dma_transferred m"
    | (wrapped) "dma_transferred m < start m"
    by (meson linorder_neqE)
  then show ?thesis
  proof cases
    case same
    then have "circ_offsets ?n ?s ?e = []"
      using e by (simp add: circ_offsets_linear)
    then have "SysTick_Handler N m =
       Inr (m\<lparr>start := dma_transferred m,
              tx := tx m @ circ_region (ring_buffer m) ?s ?e,
              loads := loads m @ circ_offsets ?n ?s ?e,
              spans := spans m @ []\<rparr>)"
      using same by (simp add: SysTick_Handler_noop circ_region_def n)
    then show ?thesis
      by (intro exI [of _ "[]"]) simp
  next
    case linear
    then have lt: "?s < ?e" by (simp add: word_less_nat_alt)
    then have offs: "circ_offsets ?n ?s ?e = [?s..<?e]"
      using e by (simp add: circ_offsets_linear)
    have "circ_region (ring_buffer m) ?s ?e = take (?e - ?s) (drop ?s (ring_buffer m))"
      using e by (simp add: circ_region_def n offs map_nth_upt)
    then have "SysTick_Handler N m =
       Inr (m\<lparr>start := dma_transferred m,
              tx := tx m @ circ_region (ring_buffer m) ?s ?e,
              loads := loads m @ circ_offsets ?n ?s ?e,
              spans := spans m @ [(?s, ?e - ?s)]\<rparr>)"
      by (simp add: SysTick_Handler_linear [OF r linear] offs)
    then show ?thesis
      by (intro exI [of _ "[(?s, ?e - ?s)]"]) simp
  next
    case wrapped
    then have gt: "?e < ?s" by (simp add: word_less_nat_alt)
    then have offs: "circ_offsets ?n ?s ?e = [?s..<?n] @ [0..<?e]"
      using s by (simp add: circ_offsets_wrapped)
    have "circ_region (ring_buffer m) ?s ?e =
        drop ?s (ring_buffer m) @ take ?e (ring_buffer m)"
      using e s by (simp add: circ_region_def n offs map_nth_upt)
    then have "SysTick_Handler N m =
       Inr (m\<lparr>start := dma_transferred m,
              tx := tx m @ circ_region (ring_buffer m) ?s ?e,
              loads := loads m @ circ_offsets ?n ?s ?e,
              spans := spans m @ [(?s, ?n - ?s), (0, ?e)]\<rparr>)"
      by (simp add: SysTick_Handler_wrapped [OF r wrapped] offs)
    then show ?thesis
      by (intro exI [of _ "[(?s, ?n - ?s), (0, ?e)]"]) simp
  qed
qed

section \<open>The producer\<close>

text \<open>
  Writing leaves the consumer's state alone and advances the write offset by the number
  of bytes, modulo the capacity. After at most \<open>N\<close> bytes, the \<open>k\<close>-th byte written is
  found \<open>k\<close> places after the offset where writing began.
\<close>

lemma produce_append: "produce N (bs @ cs) m = produce N cs (produce N bs m)"
  by (induction bs arbitrary: m) simp_all

lemma produce_frame:
  "start (produce N bs m) = start m \<and> tx (produce N bs m) = tx m \<and>
   loads (produce N bs m) = loads m \<and> spans (produce N bs m) = spans m \<and>
   length (ring_buffer (produce N bs m)) = length (ring_buffer m)"
  by (induction bs arbitrary: m) simp_all

lemma unat_next_offset:
  fixes d N :: u32
  assumes "d < N"
  shows "unat ((d + 1) mod N) = (unat d + 1) mod unat N"
  using unat_succ [OF assms] by (simp add: unat_mod)

lemma produce_offset:
  "dma_transferred m < N \<Longrightarrow>
   unat (dma_transferred (produce N bs m)) = (unat (dma_transferred m) + length bs) mod unat N"
proof (induction bs arbitrary: m)
  case Nil
  then show ?case by (simp add: word_less_nat_alt)
next
  case (Cons b bs)
  let ?m1 = "m\<lparr>ring_buffer := (ring_buffer m)[unat (dma_transferred m) := b],
               dma_transferred := (dma_transferred m + 1) mod N\<rparr>"
  from Cons.prems have pos: "0 < unat N"
    by (simp add: word_less_nat_alt)
  have next_off: "unat (dma_transferred ?m1) = (unat (dma_transferred m) + 1) mod unat N"
    using Cons.prems by (simp add: unat_next_offset)
  then have "unat (dma_transferred ?m1) < unat N"
    using pos by simp
  then have "dma_transferred ?m1 < N"
    by (simp add: word_less_nat_alt)
  then have "unat (dma_transferred (produce N bs ?m1)) =
      (unat (dma_transferred ?m1) + length bs) mod unat N"
    by (rule Cons.IH)
  also have "\<dots> = (unat (dma_transferred m) + 1 + length bs) mod unat N"
    unfolding next_off by (rule mod_add_left_eq)
  finally show ?case by (simp add: add.assoc)
qed

lemma circ_offset_distinct:
  fixes w k l n :: nat
  assumes "k < l" and "l < k + n"
  shows "(w + k) mod n \<noteq> (w + l) mod n"
proof
  assume "(w + k) mod n = (w + l) mod n"
  then have "(w + l) mod n = (w + k) mod n" by simp
  moreover have "w + k \<le> w + l" using assms by simp
  ultimately have "n dvd (w + l) - (w + k)"
    by (simp add: mod_eq_dvd_iff_nat)
  then have "n dvd l - k" by simp
  moreover have "0 < l - k" and "l - k < n" using assms by simp_all
  ultimately show False
    by (simp add: nat_dvd_not_less)
qed

lemma produce_contents:
  assumes d: "dma_transferred m < N" and n: "length (ring_buffer m) = unat N"
  shows "length bs \<le> unat N \<Longrightarrow> k < length bs \<Longrightarrow>
     ring_buffer (produce N bs m) ! ((unat (dma_transferred m) + k) mod unat N) = bs ! k"
proof (induction bs arbitrary: k rule: rev_induct)
  case Nil
  then show ?case by simp
next
  case (snoc x bs)
  let ?w = "unat (dma_transferred m)"
  let ?m' = "produce N bs m"
  from d have pos: "0 < unat N"
    by (simp add: word_less_nat_alt)
  have off: "unat (dma_transferred ?m') = (?w + length bs) mod unat N"
    using d by (rule produce_offset)
  have len: "length (ring_buffer ?m') = unat N"
    by (simp add: produce_frame n)
  have buf: "ring_buffer (produce N (bs @ [x]) m) =
      (ring_buffer ?m')[(?w + length bs) mod unat N := x]"
    by (simp add: produce_append off)
  show ?case
  proof (cases "k < length bs")
    case True
    with snoc.prems have "length bs < k + unat N" by simp
    with True have "(?w + k) mod unat N \<noteq> (?w + length bs) mod unat N"
      by (rule circ_offset_distinct)
    moreover from snoc.prems True have "ring_buffer ?m' ! ((?w + k) mod unat N) = bs ! k"
      by (intro snoc.IH) simp_all
    ultimately show ?thesis
      using True by (simp add: buf nth_append)
  next
    case False
    with snoc.prems have k: "k = length bs" by simp
    show ?thesis
      using pos by (simp add: buf k len)
  qed
qed

lemma circ_count:
  fixes w L n :: nat
  assumes "w < n" and "L < n"
  shows "((w + L) mod n + n - w) mod n = L"
proof (cases "w + L < n")
  case True
  then have "(w + L) mod n + n - w = L + n" by simp
  then show ?thesis using assms by simp
next
  case False
  then have "n \<le> w + L" by simp
  then have "(w + L) mod n = (w + L - n) mod n"
    by (rule le_mod_geq)
  also have "\<dots> = w + L - n" using assms by simp
  finally have "(w + L) mod n + n - w = L" using False by simp
  then show ?thesis using assms by simp
qed

lemma produce_region:
  assumes d: "dma_transferred m < N" and n: "length (ring_buffer m) = unat N"
    and L: "length bs < unat N"
  shows "circ_region (ring_buffer (produce N bs m)) (unat (dma_transferred m))
           (unat (dma_transferred (produce N bs m))) = bs"
proof -
  let ?w = "unat (dma_transferred m)"
  from d have w: "?w < unat N"
    by (simp add: word_less_nat_alt)
  have off: "unat (dma_transferred (produce N bs m)) = (?w + length bs) mod unat N"
    using d by (rule produce_offset)
  have len: "length (ring_buffer (produce N bs m)) = unat N"
    by (simp add: produce_frame n)
  have cnt: "((?w + length bs) mod unat N + unat N - ?w) mod unat N = length bs"
    using w L by (rule circ_count)
  show ?thesis
  proof (rule nth_equalityI)
    show "length (circ_region (ring_buffer (produce N bs m)) ?w
             (unat (dma_transferred (produce N bs m)))) = length bs"
      by (simp add: circ_region_def circ_offsets_def len off cnt)
  next
    fix k
    assume "k < length (circ_region (ring_buffer (produce N bs m)) ?w
             (unat (dma_transferred (produce N bs m))))"
    then have k: "k < length bs"
      by (simp add: circ_region_def circ_offsets_def len off cnt)
    from L have "length bs \<le> unat N" by simp
    then have "ring_buffer (produce N bs m) ! ((?w + k) mod unat N) = bs ! k"
      using k by (rule produce_contents [OF d n])
    then show "circ_region (ring_buffer (produce N bs m)) ?w
             (unat (dma_transferred (produce N bs m))) ! k = bs ! k"
      using k by (simp add: circ_region_def circ_offsets_def len off cnt)
  qed
qed

section \<open>The producer and the scheduler keep the offsets in range\<close>

lemma produce_in_range:
  assumes "offsets_in_range N m"
  shows "offsets_in_range N (produce N bs m)"
proof -
  from assms have d: "dma_transferred m < N"
    by (simp add: offsets_in_range_def)
  then have pos: "0 < unat N"
    by (simp add: word_less_nat_alt)
  have "unat (dma_transferred (produce N bs m)) = (unat (dma_transferred m) + length bs) mod unat N"
    using d by (rule produce_offset)
  then have "unat (dma_transferred (produce N bs m)) < unat N"
    using pos by simp
  then have "dma_transferred (produce N bs m) < N"
    by (simp add: word_less_nat_alt)
  with assms show ?thesis
    by (simp add: offsets_in_range_def produce_frame)
qed

lemma ticks_in_range:
  "length (ring_buffer m) = unat N \<Longrightarrow> start m < N \<Longrightarrow> \<forall>e\<in>set es. e < N \<Longrightarrow>
   \<exists>m'. ticks N es m = Inr m' \<and> start m' = last (start m # es) \<and> start m' < N"
proof (induction es arbitrary: m)
  case Nil
  then show ?case by simp
next
  case (Cons e es)
  let ?m0 = "m\<lparr>dma_transferred := e\<rparr>"
  from Cons.prems have "offsets_in_range N ?m0"
    by (simp add: offsets_in_range_def)
  then obtain sp where "SysTick_Handler N ?m0 =
       Inr (?m0\<lparr>start := dma_transferred ?m0,
              tx := tx ?m0 @ circ_region (ring_buffer ?m0) (unat (start ?m0)) (unat (dma_transferred ?m0)),
              loads := loads ?m0 @ circ_offsets (unat N) (unat (start ?m0)) (unat (dma_transferred ?m0)),
              spans := spans ?m0 @ sp\<rparr>)" (is "_ = Inr ?m1")
    using SysTick_Handler_region by blast
  then have step: "ticks N (e # es) m = ticks N es ?m1"
    by simp
  have "\<exists>m'. ticks N es ?m1 = Inr m' \<and> start m' = last (start ?m1 # es) \<and> start m' < N"
    using Cons.prems by (intro Cons.IH) simp_all
  then show ?case
    unfolding step by simp
qed

section \<open>The claims\<close>

text \<open>
  In every statement below, ``the handler emits \<open>bs\<close>'' is
  \<open>tx m' = tx m @ bs\<close> for the state \<open>m'\<close> the handler returns, and ``the spans'' are
  what the invocation appends to \<open>spans\<close>: one entry for each call of
  \<^verbatim>\<open>uart_transmit\<close>, the Sink of the specification.
\<close>

text \<open>
  Claim C2. When \<open>start < current_end\<close>, both below the capacity, the handler emits
  exactly one contiguous span: the bytes at the offsets from \<open>start\<close> up to and
  excluding \<open>current_end\<close>, which are \<open>current_end - start\<close> bytes. The witness is the
  specification's example: capacity 8, \<open>start = 2\<close>, \<open>current_end = 6\<close>, the single span
  \<open>[2, 6)\<close> of 4 bytes.
\<close>

theorem linear_branch_single_span:
  assumes "offsets_in_range N m" and "start m < dma_transferred m"
  shows "\<exists>m'. SysTick_Handler N m = Inr m' \<and>
           spans m' = spans m @ [(unat (start m), unat (dma_transferred m) - unat (start m))] \<and>
           tx m' = tx m @ map (\<lambda>off. ring_buffer m ! off) [unat (start m)..<unat (dma_transferred m)] \<and>
           length (tx m') = length (tx m) + (unat (dma_transferred m) - unat (start m))"
proof -
  from assms(1) have "unat (dma_transferred m) \<le> length (ring_buffer m)"
    by (simp add: offsets_in_range_def word_less_nat_alt)
  then show ?thesis
    by (simp add: SysTick_Handler_linear [OF assms] map_nth_upt)
qed

theorem linear_branch_single_span_witness:
  "offsets_in_range 8 \<lparr>start = 2, ring_buffer = [10, 11, 12, 13, 14, 15, 16, 17],
          dma_transferred = 6, tx = [], loads = [], spans = []\<rparr> \<and>
   (\<exists>m'. SysTick_Handler 8 \<lparr>start = 2, ring_buffer = [10, 11, 12, 13, 14, 15, 16, 17],
          dma_transferred = 6, tx = [], loads = [], spans = []\<rparr> = Inr m' \<and>
      spans m' = [(2, 4)] \<and> tx m' = [12, 13, 14, 15] \<and> length (tx m') = 4)"
  using linear_branch_single_span [of 8 "\<lparr>start = 2, ring_buffer = [10, 11, 12, 13, 14, 15, 16, 17],
          dma_transferred = 6, tx = [], loads = [], spans = []\<rparr>"]
  by (auto simp: offsets_in_range_def)

text \<open>
  Claim C3. When \<open>start > current_end\<close>, both below the capacity, the handler emits
  exactly two contiguous spans, in this order: first the bytes at the offsets from
  \<open>start\<close> to the capacity, then the bytes at the offsets from 0 up to and excluding
  \<open>current_end\<close>. The witness is the specification's example: capacity 8,
  \<open>start = 6\<close>, \<open>current_end = 2\<close>, the span \<open>[6, 8)\<close> and then the span \<open>[0, 2)\<close>,
  4 bytes in all.
\<close>

theorem wrapped_branch_two_spans:
  assumes "offsets_in_range N m" and "dma_transferred m < start m"
  shows "\<exists>m'. SysTick_Handler N m = Inr m' \<and>
           spans m' = spans m @ [(unat (start m), unat N - unat (start m)),
                                 (0, unat (dma_transferred m))] \<and>
           tx m' = tx m @ map (\<lambda>off. ring_buffer m ! off) [unat (start m)..<unat N]
                        @ map (\<lambda>off. ring_buffer m ! off) [0..<unat (dma_transferred m)] \<and>
           length (tx m') = length (tx m) + (unat N - unat (start m)) + unat (dma_transferred m)"
proof -
  from assms(1) have "unat (dma_transferred m) \<le> length (ring_buffer m)"
    and "unat N \<le> length (ring_buffer m)" and "length (ring_buffer m) = unat N"
    by (simp_all add: offsets_in_range_def word_less_nat_alt)
  then show ?thesis
    by (simp add: SysTick_Handler_wrapped [OF assms] map_nth_upt)
qed

theorem wrapped_branch_two_spans_witness:
  "offsets_in_range 8 \<lparr>start = 6, ring_buffer = [10, 11, 12, 13, 14, 15, 16, 17],
          dma_transferred = 2, tx = [], loads = [], spans = []\<rparr> \<and>
   (\<exists>m'. SysTick_Handler 8 \<lparr>start = 6, ring_buffer = [10, 11, 12, 13, 14, 15, 16, 17],
          dma_transferred = 2, tx = [], loads = [], spans = []\<rparr> = Inr m' \<and>
      spans m' = [(6, 2), (0, 2)] \<and> tx m' = [16, 17, 10, 11] \<and> length (tx m') = 4)"
  using wrapped_branch_two_spans [of 8 "\<lparr>start = 6, ring_buffer = [10, 11, 12, 13, 14, 15, 16, 17],
          dma_transferred = 2, tx = [], loads = [], spans = []\<rparr>"]
  by (auto simp: offsets_in_range_def upt_conv_Cons)

text \<open>
  Claim C4. When \<open>start\<close> equals \<open>current_end\<close> the handler returns the state it was
  given: nothing is emitted, \<open>start\<close> does not move, \<^verbatim>\<open>uart_transmit\<close> is not
  called and no byte of the buffer is read.
\<close>

theorem no_new_data_is_noop:
  "start m = dma_transferred m \<Longrightarrow> SysTick_Handler N m = Inr m"
  by (rule SysTick_Handler_noop)

theorem no_new_data_is_noop_witness:
  "start \<lparr>start = 3, ring_buffer = [10, 11, 12, 13, 14, 15, 16, 17], dma_transferred = 3,
          tx = [9], loads = [], spans = []\<rparr>
   = dma_transferred \<lparr>start = 3, ring_buffer = [10, 11, 12, 13, 14, 15, 16, 17],
          dma_transferred = 3, tx = [9], loads = [], spans = []\<rparr> \<and>
   SysTick_Handler 8 \<lparr>start = 3, ring_buffer = [10, 11, 12, 13, 14, 15, 16, 17],
          dma_transferred = 3, tx = [9], loads = [], spans = []\<rparr>
   = Inr \<lparr>start = 3, ring_buffer = [10, 11, 12, 13, 14, 15, 16, 17], dma_transferred = 3,
          tx = [9], loads = [], spans = []\<rparr>"
  using no_new_data_is_noop [of "\<lparr>start = 3, ring_buffer = [10, 11, 12, 13, 14, 15, 16, 17],
          dma_transferred = 3, tx = [9], loads = [], spans = []\<rparr>" 8]
  by simp

text \<open>
  Claim C5. After an invocation of the handler, whichever branch it took, the retained
  \<open>start\<close> is the sampled \<open>current_end\<close>: with both offsets in range the handler
  returns and \<open>start\<close> is the sample, hence below the capacity; and whenever the
  handler returns at all, from any state, \<open>start\<close> is the sample. Consequently, over
  any run of ticks whose samples are all below the capacity, \<open>start\<close> stays below the
  capacity: it is the last sample (or its initial value when there was no tick).
\<close>

theorem start_follows_sampled_end:
  "(offsets_in_range N m \<longrightarrow>
      (\<exists>m'. SysTick_Handler N m = Inr m' \<and> start m' = dma_transferred m \<and> start m' < N)) \<and>
   (SysTick_Handler N m = Inr m2 \<longrightarrow> start m2 = dma_transferred m) \<and>
   (length (ring_buffer m) = unat N \<and> start m < N \<and> (\<forall>e\<in>set es. e < N) \<longrightarrow>
      (\<exists>m'. ticks N es m = Inr m' \<and> start m' = last (start m # es) \<and> start m' < N))"
proof (intro conjI impI)
  assume r: "offsets_in_range N m"
  then obtain m' where "SysTick_Handler N m = Inr m'"
    using SysTick_Handler_region by blast
  moreover from this have "start m' = dma_transferred m"
    by (simp add: SysTick_Handler_frame)
  moreover from r have "dma_transferred m < N"
    by (simp add: offsets_in_range_def)
  ultimately show "\<exists>m'. SysTick_Handler N m = Inr m' \<and> start m' = dma_transferred m \<and> start m' < N"
    by simp
next
  assume "SysTick_Handler N m = Inr m2"
  then show "start m2 = dma_transferred m"
    by (simp add: SysTick_Handler_frame)
next
  assume "length (ring_buffer m) = unat N \<and> start m < N \<and> (\<forall>e\<in>set es. e < N)"
  then show "\<exists>m'. ticks N es m = Inr m' \<and> start m' = last (start m # es) \<and> start m' < N"
    by (intro ticks_in_range) simp_all
qed

theorem start_follows_sampled_end_witness:
  "offsets_in_range 8 \<lparr>start = 6, ring_buffer = [10, 11, 12, 13, 14, 15, 16, 17],
          dma_transferred = 2, tx = [], loads = [], spans = []\<rparr> \<and>
   (\<exists>m'. SysTick_Handler 8 \<lparr>start = 6, ring_buffer = [10, 11, 12, 13, 14, 15, 16, 17],
          dma_transferred = 2, tx = [], loads = [], spans = []\<rparr> = Inr m' \<and> start m' = 2) \<and>
   SysTick_Handler 8 \<lparr>start = 6, ring_buffer = [10, 11, 12, 13, 14, 15, 16, 17],
          dma_transferred = 2, tx = [], loads = [], spans = []\<rparr>
     = Inr \<lparr>start = 2, ring_buffer = [10, 11, 12, 13, 14, 15, 16, 17],
          dma_transferred = 2, tx = [16, 17, 10, 11], loads = [6, 7, 0, 1],
          spans = [(6, 2), (0, 2)]\<rparr> \<and>
   (6 :: u32) < 8 \<and> (1 :: u32) < 8 \<and> (5 :: u32) < 8 \<and>
   (\<exists>m'. ticks 8 [6, 1, 1, 5] \<lparr>start = 6, ring_buffer = [10, 11, 12, 13, 14, 15, 16, 17],
          dma_transferred = 2, tx = [], loads = [], spans = []\<rparr> = Inr m' \<and> start m' = 5)"
proof -
  let ?m = "\<lparr>start = 6, ring_buffer = [10, 11, 12, 13, 14, 15, 16, 17],
          dma_transferred = 2, tx = [], loads = [], spans = []\<rparr> :: machine"
  let ?m2 = "\<lparr>start = 2, ring_buffer = [10, 11, 12, 13, 14, 15, 16, 17],
          dma_transferred = 2, tx = [16, 17, 10, 11], loads = [6, 7, 0, 1],
          spans = [(6, 2), (0, 2)]\<rparr> :: machine"
  have r: "offsets_in_range 8 ?m"
    by (simp add: offsets_in_range_def)
  have run: "SysTick_Handler 8 ?m = Inr ?m2"
    using r by (simp add: SysTick_Handler_wrapped upt_conv_Cons)
  have es: "\<forall>e\<in>set [6, 1, 1, 5 :: u32]. e < 8"
    by simp
  from start_follows_sampled_end [of 8 ?m ?m2 "[6, 1, 1, 5]"] r run es
  show ?thesis
    by auto
qed

text \<open>
  Claim C6. Two invocations in succession with the same \<open>current_end\<close>: whenever the
  first returns, the counter still reads the same and the second invocation returns the
  state unchanged, so it emits nothing, because the first has set \<open>start\<close> to that
  offset; and with both offsets in range the first does return.
\<close>

theorem second_drain_same_end_emits_nothing:
  "(SysTick_Handler N m = Inr m2 \<longrightarrow>
      dma_transferred m2 = dma_transferred m \<and> SysTick_Handler N m2 = Inr m2) \<and>
   (offsets_in_range N m \<longrightarrow>
      (\<exists>m'. SysTick_Handler N m = Inr m' \<and> dma_transferred m' = dma_transferred m \<and>
         SysTick_Handler N m' = Inr m'))"
proof -
  have again: "dma_transferred k' = dma_transferred k \<and> SysTick_Handler N k' = Inr k'"
    if run: "SysTick_Handler N k = Inr k'" for k k'
  proof -
    from run have "dma_transferred k' = dma_transferred k" and "start k' = dma_transferred k'"
      by (simp_all add: SysTick_Handler_frame)
    then show ?thesis
      by (simp add: SysTick_Handler_noop)
  qed
  show ?thesis
  proof (intro conjI impI)
    assume "SysTick_Handler N m = Inr m2"
    then show "dma_transferred m2 = dma_transferred m" and "SysTick_Handler N m2 = Inr m2"
      using again by simp_all
  next
    assume "offsets_in_range N m"
    then obtain m' where run: "SysTick_Handler N m = Inr m'"
      using SysTick_Handler_region by blast
    with again [OF run] show "\<exists>m'. SysTick_Handler N m = Inr m' \<and>
        dma_transferred m' = dma_transferred m \<and> SysTick_Handler N m' = Inr m'"
      by simp
  qed
qed

theorem second_drain_same_end_emits_nothing_witness:
  "offsets_in_range 8 \<lparr>start = 2, ring_buffer = [10, 11, 12, 13, 14, 15, 16, 17],
          dma_transferred = 6, tx = [], loads = [], spans = []\<rparr> \<and>
   SysTick_Handler 8 \<lparr>start = 2, ring_buffer = [10, 11, 12, 13, 14, 15, 16, 17],
          dma_transferred = 6, tx = [], loads = [], spans = []\<rparr>
     = Inr \<lparr>start = 6, ring_buffer = [10, 11, 12, 13, 14, 15, 16, 17],
          dma_transferred = 6, tx = [12, 13, 14, 15], loads = [2, 3, 4, 5],
          spans = [(2, 4)]\<rparr> \<and>
   SysTick_Handler 8 \<lparr>start = 6, ring_buffer = [10, 11, 12, 13, 14, 15, 16, 17],
          dma_transferred = 6, tx = [12, 13, 14, 15], loads = [2, 3, 4, 5],
          spans = [(2, 4)]\<rparr>
     = Inr \<lparr>start = 6, ring_buffer = [10, 11, 12, 13, 14, 15, 16, 17],
          dma_transferred = 6, tx = [12, 13, 14, 15], loads = [2, 3, 4, 5],
          spans = [(2, 4)]\<rparr>"
proof -
  let ?m = "\<lparr>start = 2, ring_buffer = [10, 11, 12, 13, 14, 15, 16, 17],
          dma_transferred = 6, tx = [], loads = [], spans = []\<rparr> :: machine"
  let ?m2 = "\<lparr>start = 6, ring_buffer = [10, 11, 12, 13, 14, 15, 16, 17],
          dma_transferred = 6, tx = [12, 13, 14, 15], loads = [2, 3, 4, 5],
          spans = [(2, 4)]\<rparr> :: machine"
  have r: "offsets_in_range 8 ?m"
    by (simp add: offsets_in_range_def)
  have run: "SysTick_Handler 8 ?m = Inr ?m2"
    using r by (simp add: SysTick_Handler_linear)
  from second_drain_same_end_emits_nothing [of 8 ?m ?m2] r run
  show ?thesis
    by simp
qed

text \<open>
  Claim C9. An invocation of the handler that returns has changed neither the contents
  of the ring buffer nor the DMA's write-offset counter, from whatever state it started;
  and with both offsets in range it does return. What it changes is \<open>start\<close> and the
  stream handed to the UART (with the two logs of the model).
\<close>

theorem drain_leaves_store_and_counter:
  "(SysTick_Handler N m = Inr m2 \<longrightarrow>
      ring_buffer m2 = ring_buffer m \<and> dma_transferred m2 = dma_transferred m) \<and>
   (offsets_in_range N m \<longrightarrow>
      (\<exists>m'. SysTick_Handler N m = Inr m' \<and>
         ring_buffer m' = ring_buffer m \<and> dma_transferred m' = dma_transferred m))"
proof (intro conjI impI)
  assume "SysTick_Handler N m = Inr m2"
  then show "ring_buffer m2 = ring_buffer m" and "dma_transferred m2 = dma_transferred m"
    by (simp_all add: SysTick_Handler_frame)
next
  assume "offsets_in_range N m"
  then obtain m' where run: "SysTick_Handler N m = Inr m'"
    using SysTick_Handler_region by blast
  then show "\<exists>m'. SysTick_Handler N m = Inr m' \<and>
         ring_buffer m' = ring_buffer m \<and> dma_transferred m' = dma_transferred m"
    by (simp add: SysTick_Handler_frame)
qed

theorem drain_leaves_store_and_counter_witness:
  "offsets_in_range 8 \<lparr>start = 6, ring_buffer = [10, 11, 12, 13, 14, 15, 16, 17],
          dma_transferred = 2, tx = [], loads = [], spans = []\<rparr> \<and>
   SysTick_Handler 8 \<lparr>start = 6, ring_buffer = [10, 11, 12, 13, 14, 15, 16, 17],
          dma_transferred = 2, tx = [], loads = [], spans = []\<rparr>
     = Inr \<lparr>start = 2, ring_buffer = [10, 11, 12, 13, 14, 15, 16, 17],
          dma_transferred = 2, tx = [16, 17, 10, 11], loads = [6, 7, 0, 1],
          spans = [(6, 2), (0, 2)]\<rparr> \<and>
   (\<exists>m'. SysTick_Handler 8 \<lparr>start = 6, ring_buffer = [10, 11, 12, 13, 14, 15, 16, 17],
          dma_transferred = 2, tx = [], loads = [], spans = []\<rparr> = Inr m' \<and>
      ring_buffer m' = [10, 11, 12, 13, 14, 15, 16, 17] \<and> dma_transferred m' = 2)"
proof -
  let ?m = "\<lparr>start = 6, ring_buffer = [10, 11, 12, 13, 14, 15, 16, 17],
          dma_transferred = 2, tx = [], loads = [], spans = []\<rparr> :: machine"
  let ?m2 = "\<lparr>start = 2, ring_buffer = [10, 11, 12, 13, 14, 15, 16, 17],
          dma_transferred = 2, tx = [16, 17, 10, 11], loads = [6, 7, 0, 1],
          spans = [(6, 2), (0, 2)]\<rparr> :: machine"
  have r: "offsets_in_range 8 ?m"
    by (simp add: offsets_in_range_def)
  have run: "SysTick_Handler 8 ?m = Inr ?m2"
    using r by (simp add: SysTick_Handler_wrapped upt_conv_Cons)
  from drain_leaves_store_and_counter [of 8 ?m ?m2] r run
  show ?thesis
    by auto
qed

lemma produce_full_lap:
  assumes r: "offsets_in_range N m" and L: "length bs = unat N"
  shows "dma_transferred (produce N bs m) = dma_transferred m"
    and "map (\<lambda>k. ring_buffer (produce N bs m) ! ((unat (dma_transferred m) + k) mod unat N))
           [0..<unat N] = bs"
proof -
  from r have d: "dma_transferred m < N" and n: "length (ring_buffer m) = unat N"
    by (simp_all add: offsets_in_range_def)
  then have w: "unat (dma_transferred m) < unat N"
    by (simp add: word_less_nat_alt)
  have "unat (dma_transferred (produce N bs m)) = (unat (dma_transferred m) + length bs) mod unat N"
    using d by (rule produce_offset)
  then have "unat (dma_transferred (produce N bs m)) = unat (dma_transferred m)"
    using w by (simp add: L)
  then show "dma_transferred (produce N bs m) = dma_transferred m"
    by (simp only: word_unat_eq_iff)
  show "map (\<lambda>k. ring_buffer (produce N bs m) ! ((unat (dma_transferred m) + k) mod unat N))
           [0..<unat N] = bs"
  proof (rule nth_equalityI)
    show "length (map (\<lambda>k. ring_buffer (produce N bs m) ! ((unat (dma_transferred m) + k) mod unat N))
           [0..<unat N]) = length bs"
      by (simp add: L)
  next
    fix k
    assume "k < length (map (\<lambda>k. ring_buffer (produce N bs m) !
        ((unat (dma_transferred m) + k) mod unat N)) [0..<unat N])"
    then have k: "k < length bs"
      by (simp add: L)
    have "length bs \<le> unat N"
      by (simp add: L)
    then have "ring_buffer (produce N bs m) ! ((unat (dma_transferred m) + k) mod unat N) = bs ! k"
      using k by (rule produce_contents [OF d n])
    then show "map (\<lambda>k. ring_buffer (produce N bs m) ! ((unat (dma_transferred m) + k) mod unat N))
           [0..<unat N] ! k = bs ! k"
      using k by (simp add: L)
  qed
qed

text \<open>
  Claim C7. The state is the one just after a drain (\<open>start\<close> equals the write
  offset) and the producer then writes exactly as many bytes as the capacity, a full lap.
  The write offset is back at \<open>start\<close>, the buffer holds the bytes written, and the
  handler returns the state it was given: nothing is emitted, nothing is reported, and
  the case cannot be told from the one where nothing was written.
\<close>

theorem full_lap_emits_nothing:
  assumes "offsets_in_range N m" and "start m = dma_transferred m" and "length bs = unat N"
  shows "dma_transferred (produce N bs m) = start (produce N bs m) \<and>
         map (\<lambda>k. ring_buffer (produce N bs m) ! ((unat (start m) + k) mod unat N))
           [0..<unat N] = bs \<and>
         SysTick_Handler N (produce N bs m) = Inr (produce N bs m) \<and>
         tx (produce N bs m) = tx m"
proof -
  have same: "dma_transferred (produce N bs m) = start (produce N bs m)"
    using produce_full_lap(1) [OF assms(1,3)] assms(2) by (simp add: produce_frame)
  then have "SysTick_Handler N (produce N bs m) = Inr (produce N bs m)"
    by (simp add: SysTick_Handler_noop)
  with same show ?thesis
    using produce_full_lap(2) [OF assms(1,3)] assms(2) by (simp add: produce_frame)
qed

theorem full_lap_emits_nothing_witness:
  "offsets_in_range 8 \<lparr>start = 2, ring_buffer = [10, 11, 12, 13, 14, 15, 16, 17],
          dma_transferred = 2, tx = [], loads = [], spans = []\<rparr> \<and>
   length [21, 22, 23, 24, 25, 26, 27, 28 :: u8] = unat (8 :: u32) \<and>
   SysTick_Handler 8 (produce 8 [21, 22, 23, 24, 25, 26, 27, 28]
       \<lparr>start = 2, ring_buffer = [10, 11, 12, 13, 14, 15, 16, 17],
          dma_transferred = 2, tx = [], loads = [], spans = []\<rparr>)
     = Inr (produce 8 [21, 22, 23, 24, 25, 26, 27, 28]
       \<lparr>start = 2, ring_buffer = [10, 11, 12, 13, 14, 15, 16, 17],
          dma_transferred = 2, tx = [], loads = [], spans = []\<rparr>) \<and>
   tx (produce 8 [21, 22, 23, 24, 25, 26, 27, 28]
       \<lparr>start = 2, ring_buffer = [10, 11, 12, 13, 14, 15, 16, 17],
          dma_transferred = 2, tx = [], loads = [], spans = []\<rparr>) = []"
  using full_lap_emits_nothing [of 8 "\<lparr>start = 2, ring_buffer = [10, 11, 12, 13, 14, 15, 16, 17],
          dma_transferred = 2, tx = [], loads = [], spans = []\<rparr>"
          "[21, 22, 23, 24, 25, 26, 27, 28]"]
  by (simp add: offsets_in_range_def)

lemma take_drop_nth:
  "data + n \<le> length mem \<Longrightarrow>
   take n (drop data mem) = map (\<lambda>i. mem ! (data + i)) [0..<n]"
  by (rule nth_equalityI) simp_all

lemma upt_shift: "[data..<data + n] = map (\<lambda>i. data + i) [0..<n]"
  by (rule nth_equalityI) simp_all

text \<open>
  Claim C10. A call of \<^verbatim>\<open>uart_transmit\<close> whose \<open>len\<close> bytes lie inside the array
  emits exactly those \<open>len\<close> bytes, \<^verbatim>\<open>data[0]\<close> to \<^verbatim>\<open>data[len - 1]\<close>, in index
  order, reading each once. With \<open>len = 0\<close> it emits nothing and reads nothing, wherever
  \<open>data\<close> points. So in the wrapped branch with \<open>current_end = 0\<close> and \<open>start > 0\<close> the
  second span is empty and the handler emits the bytes at the offsets from \<open>start\<close> to
  the capacity, and nothing more.
\<close>

theorem uart_transmit_emits_len_bytes:
  "(data + unat len \<le> length mem \<longrightarrow>
      uart_transmit mem data len m =
        Inr (m\<lparr>tx := tx m @ map (\<lambda>i. mem ! (data + i)) [0..<unat len],
               loads := loads m @ map (\<lambda>i. data + i) [0..<unat len],
               spans := spans m @ [(data, unat len)]\<rparr>)) \<and>
   uart_transmit mem data 0 m = Inr (m\<lparr>spans := spans m @ [(data, 0)]\<rparr>) \<and>
   (offsets_in_range N m \<and> dma_transferred m = 0 \<and> 0 < start m \<longrightarrow>
      (\<exists>m'. SysTick_Handler N m = Inr m' \<and>
         spans m' = spans m @ [(unat (start m), unat N - unat (start m)), (0, 0)] \<and>
         tx m' = tx m @ map (\<lambda>off. ring_buffer m ! off) [unat (start m)..<unat N] \<and>
         length (tx m') = length (tx m) + (unat N - unat (start m))))"
proof (intro conjI impI)
  assume fits: "data + unat len \<le> length mem"
  then show "uart_transmit mem data len m =
        Inr (m\<lparr>tx := tx m @ map (\<lambda>i. mem ! (data + i)) [0..<unat len],
               loads := loads m @ map (\<lambda>i. data + i) [0..<unat len],
               spans := spans m @ [(data, unat len)]\<rparr>)"
    by (simp only: uart_transmit_eq [OF fits] take_drop_nth [OF fits] upt_shift)
next
  show "uart_transmit mem data 0 m = Inr (m\<lparr>spans := spans m @ [(data, 0)]\<rparr>)"
    by (simp add: uart_transmit_def uart_transmit_loop.simps [of mem data 0 0])
next
  assume a: "offsets_in_range N m \<and> dma_transferred m = 0 \<and> 0 < start m"
  then have r: "offsets_in_range N m" and gt: "dma_transferred m < start m"
    and z: "dma_transferred m = 0"
    by simp_all
  from r have "unat N \<le> length (ring_buffer m)"
    by (simp add: offsets_in_range_def)
  then show "\<exists>m'. SysTick_Handler N m = Inr m' \<and>
         spans m' = spans m @ [(unat (start m), unat N - unat (start m)), (0, 0)] \<and>
         tx m' = tx m @ map (\<lambda>off. ring_buffer m ! off) [unat (start m)..<unat N] \<and>
         length (tx m') = length (tx m) + (unat N - unat (start m))"
    using r by (simp add: SysTick_Handler_wrapped [OF r gt] z map_nth_upt offsets_in_range_def)
qed

theorem uart_transmit_emits_len_bytes_witness:
  "(1 :: nat) + unat (3 :: u32) \<le> length [10, 11, 12, 13, 14, 15, 16, 17 :: u8] \<and>
   uart_transmit [10, 11, 12, 13, 14, 15, 16, 17] 1 3
       \<lparr>start = 5, ring_buffer = [10, 11, 12, 13, 14, 15, 16, 17], dma_transferred = 0,
          tx = [], loads = [], spans = []\<rparr>
     = Inr \<lparr>start = 5, ring_buffer = [10, 11, 12, 13, 14, 15, 16, 17], dma_transferred = 0,
          tx = [11, 12, 13], loads = [1, 2, 3], spans = [(1, 3)]\<rparr> \<and>
   offsets_in_range 8 \<lparr>start = 5, ring_buffer = [10, 11, 12, 13, 14, 15, 16, 17],
          dma_transferred = 0, tx = [], loads = [], spans = []\<rparr> \<and>
   (\<exists>m'. SysTick_Handler 8 \<lparr>start = 5, ring_buffer = [10, 11, 12, 13, 14, 15, 16, 17],
          dma_transferred = 0, tx = [], loads = [], spans = []\<rparr> = Inr m' \<and>
      spans m' = [(5, 3), (0, 0)] \<and> tx m' = [15, 16, 17])"
  using uart_transmit_emits_len_bytes [of 1 3 "[10, 11, 12, 13, 14, 15, 16, 17]"
          "\<lparr>start = 5, ring_buffer = [10, 11, 12, 13, 14, 15, 16, 17], dma_transferred = 0,
          tx = [], loads = [], spans = []\<rparr>" 8]
  by (auto simp: offsets_in_range_def upt_conv_Cons)

text \<open>
  Claim C8. With both offsets below the capacity, every offset of the buffer the
  handler reads is below the capacity and one invocation emits at most as many bytes as
  the capacity. This holds as well after the producer has written any number of bytes,
  more than the capacity included, since its write offset stays below the capacity. The
  witness is the specification's scenario: capacity 16 and 20 bytes written before the
  drain.
\<close>

theorem drain_reads_stay_in_bounds:
  assumes "offsets_in_range N m"
  shows "(\<exists>m' ls. SysTick_Handler N m = Inr m' \<and> loads m' = loads m @ ls \<and>
            (\<forall>off\<in>set ls. off < unat N) \<and> length (tx m') \<le> length (tx m) + unat N) \<and>
         (\<exists>m' ls. SysTick_Handler N (produce N bs m) = Inr m' \<and> loads m' = loads m @ ls \<and>
            (\<forall>off\<in>set ls. off < unat N) \<and> length (tx m') \<le> length (tx m) + unat N)"
proof -
  have bounded: "\<exists>m' ls. SysTick_Handler N k = Inr m' \<and> loads m' = loads k @ ls \<and>
            (\<forall>off\<in>set ls. off < unat N) \<and> length (tx m') \<le> length (tx k) + unat N"
    if r: "offsets_in_range N k" for k
  proof -
    let ?ls = "circ_offsets (unat N) (unat (start k)) (unat (dma_transferred k))"
    from r have s: "unat (start k) < unat N" and e: "unat (dma_transferred k) < unat N"
      and n: "length (ring_buffer k) = unat N"
      by (simp_all add: offsets_in_range_def word_less_nat_alt)
    from r obtain sp where run: "SysTick_Handler N k =
       Inr (k\<lparr>start := dma_transferred k,
              tx := tx k @ circ_region (ring_buffer k) (unat (start k)) (unat (dma_transferred k)),
              loads := loads k @ ?ls,
              spans := spans k @ sp\<rparr>)"
      using SysTick_Handler_region by blast
    have "\<forall>off\<in>set ?ls. off < unat N"
      using circ_offsets_bound(1) [OF s e] by blast
    moreover have "length (circ_region (ring_buffer k) (unat (start k)) (unat (dma_transferred k)))
        \<le> unat N"
      using circ_offsets_bound(2) [OF s e] by (simp add: circ_region_def n)
    ultimately show ?thesis
      unfolding run by simp
  qed
  have "offsets_in_range N (produce N bs m)"
    using assms by (rule produce_in_range)
  from bounded [OF this] bounded [OF assms] show ?thesis
    by (simp add: produce_frame)
qed

theorem drain_reads_stay_in_bounds_witness:
  "offsets_in_range 16 \<lparr>start = 0, ring_buffer = [0, 0, 0, 0, 0, 0, 0, 0, 0, 0, 0, 0, 0, 0, 0, 0],
          dma_transferred = 0, tx = [], loads = [], spans = []\<rparr> \<and>
   unat (16 :: u32) < length [1, 2, 3, 4, 5, 6, 7, 8, 9, 10, 11, 12, 13, 14, 15, 16, 17, 18, 19, 20 :: u8] \<and>
   (\<exists>m' ls. SysTick_Handler 16
        (produce 16 [1, 2, 3, 4, 5, 6, 7, 8, 9, 10, 11, 12, 13, 14, 15, 16, 17, 18, 19, 20]
          \<lparr>start = 0, ring_buffer = [0, 0, 0, 0, 0, 0, 0, 0, 0, 0, 0, 0, 0, 0, 0, 0],
          dma_transferred = 0, tx = [], loads = [], spans = []\<rparr>) = Inr m' \<and>
      loads m' = ls \<and> (\<forall>off\<in>set ls. off < 16) \<and> length (tx m') \<le> 16)"
  using drain_reads_stay_in_bounds [of 16
          "\<lparr>start = 0, ring_buffer = [0, 0, 0, 0, 0, 0, 0, 0, 0, 0, 0, 0, 0, 0, 0, 0],
          dma_transferred = 0, tx = [], loads = [], spans = []\<rparr>"
          "[1, 2, 3, 4, 5, 6, 7, 8, 9, 10, 11, 12, 13, 14, 15, 16, 17, 18, 19, 20]"]
  by (simp add: offsets_in_range_def)

text \<open>
  Claim C1, amended. With both offsets below the capacity, one invocation emits exactly
  the bytes of the circular region from \<open>start\<close> to \<open>current_end\<close>, in the order of
  the offsets, which is the order of writing; it reads each offset of the region once
  (the offsets read are the region's, and no offset occurs twice in it); and it calls
  \<^verbatim>\<open>uart_transmit\<close> at most twice. In particular, when the producer writes \<open>L\<close>
  bytes after a drain, with \<open>L\<close> less than the capacity, the next invocation emits
  exactly those \<open>L\<close> bytes in the order written.

  The claim as stated allows \<open>L\<close> equal to the capacity. There it fails: after a full
  lap the write offset is back at \<open>start\<close> and the handler emits nothing; the last
  theorem of this section computes it for capacity 8 and 8 bytes written.
\<close>

theorem drain_emits_unread_region:
  "(offsets_in_range N m \<longrightarrow>
      (\<exists>m' sp. SysTick_Handler N m = Inr m' \<and>
         tx m' = tx m @ circ_region (ring_buffer m) (unat (start m)) (unat (dma_transferred m)) \<and>
         loads m' = loads m @ circ_offsets (unat N) (unat (start m)) (unat (dma_transferred m)) \<and>
         distinct (circ_offsets (unat N) (unat (start m)) (unat (dma_transferred m))) \<and>
         spans m' = spans m @ sp \<and> length sp \<le> 2)) \<and>
   (offsets_in_range N m \<and> start m = dma_transferred m \<and> length bs < unat N \<longrightarrow>
      (\<exists>m'. SysTick_Handler N (produce N bs m) = Inr m' \<and> tx m' = tx m @ bs \<and>
         length (tx m') = length (tx m) + length bs))"
proof (intro conjI impI)
  assume r: "offsets_in_range N m"
  then have s: "unat (start m) < unat N" and e: "unat (dma_transferred m) < unat N"
    by (simp_all add: offsets_in_range_def word_less_nat_alt)
  from r obtain sp where "length sp \<le> 2" and "SysTick_Handler N m =
       Inr (m\<lparr>start := dma_transferred m,
              tx := tx m @ circ_region (ring_buffer m) (unat (start m)) (unat (dma_transferred m)),
              loads := loads m @ circ_offsets (unat N) (unat (start m)) (unat (dma_transferred m)),
              spans := spans m @ sp\<rparr>)"
    using SysTick_Handler_region by blast
  then show "\<exists>m' sp. SysTick_Handler N m = Inr m' \<and>
         tx m' = tx m @ circ_region (ring_buffer m) (unat (start m)) (unat (dma_transferred m)) \<and>
         loads m' = loads m @ circ_offsets (unat N) (unat (start m)) (unat (dma_transferred m)) \<and>
         distinct (circ_offsets (unat N) (unat (start m)) (unat (dma_transferred m))) \<and>
         spans m' = spans m @ sp \<and> length sp \<le> 2"
    using circ_offsets_distinct [OF s e] by simp
next
  assume a: "offsets_in_range N m \<and> start m = dma_transferred m \<and> length bs < unat N"
  let ?m1 = "produce N bs m"
  from a have r: "offsets_in_range N m" and same: "start m = dma_transferred m"
    and L: "length bs < unat N"
    by simp_all
  from r have d: "dma_transferred m < N" and n: "length (ring_buffer m) = unat N"
    by (simp_all add: offsets_in_range_def)
  have "offsets_in_range N ?m1"
    using r by (rule produce_in_range)
  then obtain sp where run: "SysTick_Handler N ?m1 =
       Inr (?m1\<lparr>start := dma_transferred ?m1,
              tx := tx ?m1 @ circ_region (ring_buffer ?m1) (unat (start ?m1)) (unat (dma_transferred ?m1)),
              loads := loads ?m1 @ circ_offsets (unat N) (unat (start ?m1)) (unat (dma_transferred ?m1)),
              spans := spans ?m1 @ sp\<rparr>)"
    using SysTick_Handler_region by blast
  have "circ_region (ring_buffer ?m1) (unat (start ?m1)) (unat (dma_transferred ?m1)) = bs"
    using produce_region [OF d n L] same by (simp add: produce_frame)
  then show "\<exists>m'. SysTick_Handler N (produce N bs m) = Inr m' \<and> tx m' = tx m @ bs \<and>
         length (tx m') = length (tx m) + length bs"
    unfolding run by (simp add: produce_frame)
qed

theorem drain_emits_unread_region_witness:
  "offsets_in_range 8 \<lparr>start = 6, ring_buffer = [10, 11, 12, 13, 14, 15, 16, 17],
          dma_transferred = 6, tx = [], loads = [], spans = []\<rparr> \<and>
   length [21, 22, 23, 24 :: u8] < unat (8 :: u32) \<and>
   (\<exists>m'. SysTick_Handler 8 (produce 8 [21, 22, 23, 24]
        \<lparr>start = 6, ring_buffer = [10, 11, 12, 13, 14, 15, 16, 17],
          dma_transferred = 6, tx = [], loads = [], spans = []\<rparr>) = Inr m' \<and>
      tx m' = [21, 22, 23, 24]) \<and>
   offsets_in_range 8 \<lparr>start = 6, ring_buffer = [10, 11, 12, 13, 14, 15, 16, 17],
          dma_transferred = 2, tx = [], loads = [], spans = []\<rparr> \<and>
   (\<exists>m' sp. SysTick_Handler 8 \<lparr>start = 6, ring_buffer = [10, 11, 12, 13, 14, 15, 16, 17],
          dma_transferred = 2, tx = [], loads = [], spans = []\<rparr> = Inr m' \<and>
      tx m' = circ_region [10, 11, 12, 13, 14, 15, 16, 17] 6 2 \<and>
      loads m' = circ_offsets 8 6 2 \<and> spans m' = sp \<and> length sp \<le> 2) \<and>
   circ_offsets 8 6 2 = [6, 7, 0, 1] \<and>
   circ_region [10, 11, 12, 13, 14, 15, 16, 17] 6 2 = [16, 17, 10, 11]"
proof -
  let ?buf = "[10, 11, 12, 13, 14, 15, 16, 17] :: u8 list"
  let ?a = "\<lparr>start = 6, ring_buffer = ?buf, dma_transferred = 6, tx = [], loads = [],
             spans = []\<rparr> :: machine"
  let ?b = "\<lparr>start = 6, ring_buffer = ?buf, dma_transferred = 2, tx = [], loads = [],
             spans = []\<rparr> :: machine"
  have ra: "offsets_in_range 8 ?a" and rb: "offsets_in_range 8 ?b"
    by (simp_all add: offsets_in_range_def)
  have offs: "circ_offsets 8 6 2 = [6, 7, 0, 1]"
    by (simp add: circ_offsets_def upt_conv_Cons)
  have len: "length ?buf = 8"
    by simp
  have reg: "circ_region ?buf 6 2 = [16, 17, 10, 11]"
    unfolding circ_region_def len offs by simp
  from drain_emits_unread_region [of 8 ?a "[21, 22, 23, 24]"] ra
  have one: "\<exists>m'. SysTick_Handler 8 (produce 8 [21, 22, 23, 24] ?a) = Inr m' \<and>
      tx m' = [21, 22, 23, 24]"
    by auto
  from drain_emits_unread_region [of 8 ?b "[]"] rb
  have two: "\<exists>m' sp. SysTick_Handler 8 ?b = Inr m' \<and>
      tx m' = circ_region ?buf 6 2 \<and>
      loads m' = circ_offsets 8 6 2 \<and> spans m' = sp \<and> length sp \<le> 2"
    by auto
  from ra rb one two offs reg show ?thesis
    by simp
qed

text \<open>
  Claim C1 as stated, at capacity 8: the state is the one after a drain, with \<open>start\<close>
  and the write offset both 2; the producer writes 8 bytes, which is not more than the
  capacity; the handler then returns with nothing transmitted, not the 8 bytes written.
\<close>

theorem full_lap_counterexample:
  "offsets_in_range 8 \<lparr>start = 2, ring_buffer = [10, 11, 12, 13, 14, 15, 16, 17],
          dma_transferred = 2, tx = [], loads = [], spans = []\<rparr> \<and>
   length [21, 22, 23, 24, 25, 26, 27, 28 :: u8] \<le> unat (8 :: u32) \<and>
   SysTick_Handler 8 (produce 8 [21, 22, 23, 24, 25, 26, 27, 28]
       \<lparr>start = 2, ring_buffer = [10, 11, 12, 13, 14, 15, 16, 17],
          dma_transferred = 2, tx = [], loads = [], spans = []\<rparr>)
     = Inr \<lparr>start = 2, ring_buffer = [27, 28, 21, 22, 23, 24, 25, 26],
          dma_transferred = 2, tx = [], loads = [], spans = []\<rparr> \<and>
   length (tx \<lparr>start = 2, ring_buffer = [27, 28, 21, 22, 23, 24, 25, 26],
          dma_transferred = 2, tx = [], loads = [], spans = []\<rparr>)
     \<noteq> length [21, 22, 23, 24, 25, 26, 27, 28 :: u8]"
  by (simp add: offsets_in_range_def SysTick_Handler_noop)

end
